theory Spec2Isabelle
  imports Main
begin

section \<open>The Redis publish/subscribe registry of \<^verbatim>\<open>redis-pubsub.ts\<close>\<close>

text \<open>
  The class \<^verbatim>\<open>RedisPubSub\<close> keeps two tables and a counter:
  \<^verbatim>\<open>subscriptionMap\<close> (subscription id to the pair of channel name and listener),
  \<^verbatim>\<open>subsRefsMap\<close> (channel name to the array of ids bound to it) and
  \<^verbatim>\<open>currentSubscriptionId\<close>. Every method is modelled in state-passing style: it
  takes the instance and returns the instance after the call, together with what the
  caller observes (the promise's outcome, the exception thrown, the listeners invoked).

  Conventions of the model.
  \<^item> The two tables are plain JavaScript objects (line 72-73). A read
    \<^verbatim>\<open>this.subsRefsMap[key]\<close> finds the object's own property when there is one and
    otherwise what the object inherits from \<^verbatim>\<open>Object.prototype\<close>; both are modelled.
    The keys of \<^verbatim>\<open>subscriptionMap\<close> are numbers, and no inherited property has such a
    name, so that table is a partial map.
  \<^item> The Redis clients are not part of the repository. Each command the class sends to
    them is appended to the field \<open>calls\<close>; what the subscriber client answers to a
    \<^verbatim>\<open>subscribe\<close>/\<^verbatim>\<open>psubscribe\<close> is an argument of the model.
  \<^item> \<^verbatim>\<open>JSON.stringify\<close> and \<^verbatim>\<open>JSON.parse\<close> are built-ins of the JavaScript runtime,
    not code of the repository: they are the two fields of a \<open>runtime\<close> record that
    the codec functions take as a parameter.
  \<^item> A listener is a JavaScript function, foreign to the class. The model gives it a
    name and records, for each argument, whether it throws and which calls of
    \<^verbatim>\<open>subscribe\<close> and \<^verbatim>\<open>unsubscribe\<close> it makes on the instance while it runs.
  \<^item> A value a decoder returns is identified by the number of the decoder call that
    returned it (field \<open>decoded\<close> counts the calls): two listeners handed the result
    of the same call are handed the same JavaScript object.
  \<^item> Payload values are the data values of JavaScript, with the number type left as a
    type parameter.
\<close>

subsection \<open>Values, errors, listeners\<close>

datatype 'n jsvalue =
    JNull
  | JBool bool
  | JNumber 'n
  | JString string
  | JArray "'n jsvalue list"
  | JObject "(string \<times> 'n jsvalue) list"

datatype error =
    ReviverAndDeserializer
  | NoSubscription nat
  | TransportError string
  | CodecError
  | ListenerError nat
  | TypeError

text \<open>What a listener is called with (\<^verbatim>\<open>parsedMessage\<close>, lines 163-168): the value
  returned by a call of the decoder, tagged with the number of that call, or, when the
  decoder threw, the message string itself.\<close>

datatype 'n argument = FromDecoder nat "'n jsvalue" | RawMessage string

text \<open>The options object of a subscribe call; only the truthiness of its
  \<^verbatim>\<open>pattern\<close> property is read by the class itself.\<close>

record options =
  pattern :: bool

text \<open>A listener, and the calls it can make on the instance while it runs.\<close>

datatype 'n listener =
    Listener (lname: nat) (lthrows: "'n argument \<Rightarrow> bool") (lcalls: "'n argument \<Rightarrow> 'n reentry list")
and 'n reentry =
    CallUnsubscribe nat
  | CallSubscribe string "'n listener" options

type_synonym 'n Reviver = "string \<Rightarrow> 'n jsvalue \<Rightarrow> 'n jsvalue"
type_synonym 'n Serializer = "'n jsvalue \<Rightarrow> error + string"
type_synonym 'n Deserializer = "string \<Rightarrow> error + 'n jsvalue"
type_synonym TriggerTransform = "string \<Rightarrow> options \<Rightarrow> string"

text \<open>Commands sent to the Redis clients. The argument of an unsubscribe is the
  JavaScript value the code passes, which is \<^verbatim>\<open>null\<close> (\<open>None\<close>) when the id has no
  record.\<close>

datatype call =
    Subscribe string
  | PSubscribe string
  | Unsubscribe "string option"
  | PUnsubscribe "string option"
  | Publish string string

record 'n runtime =
  JSON_stringify :: "'n jsvalue \<Rightarrow> error + string"
  JSON_parse :: "string \<Rightarrow> 'n Reviver option \<Rightarrow> error + 'n jsvalue"

subsection \<open>The instance and its constructor\<close>

record 'n PubSubRedisOptions =
  opt_triggerTransform :: "TriggerTransform option"
  opt_reviver :: "'n Reviver option"
  opt_serializer :: "'n Serializer option"
  opt_deserializer :: "'n Deserializer option"

record 'n RedisPubSub =
  triggerTransform :: TriggerTransform
  reviver :: "'n Reviver option"
  serializer :: "'n Serializer option"
  deserializer :: "'n Deserializer option"
  subscriptionMap :: "nat \<rightharpoonup> (string \<times> 'n listener)"
  subsRefsMap :: "string \<rightharpoonup> nat list"
  currentSubscriptionId :: nat
  calls :: "call list"
  decoded :: nat

text \<open>Lines 20-75. The default trigger transform returns the trigger unchanged; a
  reviver together with a deserializer is refused; the tables start empty and the
  counter at 0.\<close>

definition new_RedisPubSub :: "'n PubSubRedisOptions \<Rightarrow> error + 'n RedisPubSub" where
  "new_RedisPubSub opts =
     (if opt_reviver opts \<noteq> None \<and> opt_deserializer opts \<noteq> None
      then Inl ReviverAndDeserializer
      else Inr \<lparr> triggerTransform =
                   (case opt_triggerTransform opts of
                      Some f \<Rightarrow> f
                    | None \<Rightarrow> (\<lambda>trigger _. trigger)),
                 reviver = opt_reviver opts,
                 serializer = opt_serializer opts,
                 deserializer = opt_deserializer opts,
                 subscriptionMap = Map.empty,
                 subsRefsMap = Map.empty,
                 currentSubscriptionId = 0,
                 calls = [],
                 decoded = 0 \<rparr>)"

subsection \<open>Reading \<^verbatim>\<open>subsRefsMap\<close>\<close>

text \<open>What a read \<^verbatim>\<open>this.subsRefsMap[key]\<close> can find: nothing (\<^verbatim>\<open>undefined\<close>), an array
  of ids the class stored, or one of the members every plain object inherits, which
  are functions (of which the code reads \<^verbatim>\<open>length\<close>) and, under \<^verbatim>\<open>__proto__\<close>, the
  prototype object itself (whose \<^verbatim>\<open>length\<close> is \<^verbatim>\<open>undefined\<close>).\<close>

datatype property =
    Undefined
  | ArrayOf "nat list"
  | FunctionOfLength nat
  | PrototypeObject

text \<open>The members of \<^verbatim>\<open>Object.prototype\<close>, with the \<^verbatim>\<open>length\<close> of each function.\<close>

definition Object_prototype :: "string \<Rightarrow> property" where
  "Object_prototype k =
     (if k = ''constructor'' \<or> k = ''hasOwnProperty'' \<or> k = ''isPrototypeOf''
         \<or> k = ''propertyIsEnumerable'' \<or> k = ''__lookupGetter__''
         \<or> k = ''__lookupSetter__''
      then FunctionOfLength 1
      else if k = ''__defineGetter__'' \<or> k = ''__defineSetter__''
      then FunctionOfLength 2
      else if k = ''toString'' \<or> k = ''toLocaleString'' \<or> k = ''valueOf''
      then FunctionOfLength 0
      else if k = ''__proto__''
      then PrototypeObject
      else Undefined)"

text \<open>\<^verbatim>\<open>this.subsRefsMap[key]\<close>: the own property first, the inherited one otherwise.\<close>

definition refsAt :: "'n RedisPubSub \<Rightarrow> string \<Rightarrow> property" where
  "refsAt ps key =
     (case subsRefsMap ps key of
        Some refs \<Rightarrow> ArrayOf refs
      | None \<Rightarrow> Object_prototype key)"

subsection \<open>publish\<close>

text \<open>Line 78: the payload is encoded by the custom serializer when one is configured,
  by \<^verbatim>\<open>JSON.stringify\<close> otherwise.\<close>

definition encode :: "'n runtime \<Rightarrow> 'n RedisPubSub \<Rightarrow> 'n jsvalue \<Rightarrow> error + string" where
  "encode rt ps payload =
     (case serializer ps of
        Some s \<Rightarrow> s payload
      | None \<Rightarrow> JSON_stringify rt payload)"

text \<open>Lines 77-79. The trigger is used as the channel as it is. \<open>err\<close> is what the
  publisher client answers; the promise is rejected when encoding throws or the client
  reports an error.\<close>

definition publish ::
  "'n runtime \<Rightarrow> 'n RedisPubSub \<Rightarrow> string \<Rightarrow> 'n jsvalue \<Rightarrow> error option
     \<Rightarrow> 'n RedisPubSub \<times> error option" where
  "publish rt ps trigger payload err =
     (case encode rt ps payload of
        Inl e \<Rightarrow> (ps, Some e)
      | Inr wire \<Rightarrow> (ps\<lparr>calls := calls ps @ [Publish trigger wire]\<rparr>, err))"

subsection \<open>subscribe\<close>

text \<open>What the caller of \<^verbatim>\<open>subscribe\<close> observes: the promise resolved with the id, the
  promise rejected, an exception thrown by the call itself before any promise is
  returned, or a promise that stays pending because the callback threw.\<close>

datatype promise = Resolved nat | Rejected error | Threw error | NeverSettled error

text \<open>What the synchronous part of \<^verbatim>\<open>subscribe\<close> leaves behind: an outcome, or a callback
  waiting for the subscriber client, closed over the id and the channel name.\<close>

datatype pending = Settled promise | AwaitingTransport nat string

text \<open>Lines 87-98 and 100: the code that runs before \<^verbatim>\<open>subscribe\<close> returns. The record
  is written to \<^verbatim>\<open>subscriptionMap\<close> first (line 89), in every branch. The test of line
  92 is \<^verbatim>\<open>refs && refs.length > 0\<close>; spreading an inherited function (line 93) throws a
  \<^verbatim>\<open>TypeError\<close>. The source's \<^verbatim>\<open>id\<close> is \<open>sid\<close> here.\<close>

definition subscribe_sync ::
  "'n RedisPubSub \<Rightarrow> string \<Rightarrow> 'n listener \<Rightarrow> options \<Rightarrow> 'n RedisPubSub \<times> pending" where
  "subscribe_sync ps trigger onMessage opts =
     (let triggerName = triggerTransform ps trigger opts;
          sid = currentSubscriptionId ps;
          ps1 = ps\<lparr>currentSubscriptionId := sid + 1,
                   subscriptionMap := (subscriptionMap ps)(sid \<mapsto> (triggerName, onMessage))\<rparr>;
          wait = (ps1\<lparr>calls := calls ps1 @
                         [if pattern opts then PSubscribe triggerName else Subscribe triggerName]\<rparr>,
                  AwaitingTransport sid triggerName)
      in case refsAt ps1 triggerName of
           ArrayOf refs \<Rightarrow>
             if length refs > 0
             then (ps1\<lparr>subsRefsMap := (subsRefsMap ps1)(triggerName \<mapsto> refs @ [sid])\<rparr>,
                   Settled (Resolved sid))
             else wait
         | FunctionOfLength n \<Rightarrow>
             if n > 0 then (ps1, Settled (Threw TypeError)) else wait
         | PrototypeObject \<Rightarrow> wait
         | Undefined \<Rightarrow> wait)"

text \<open>Lines 100-110: the callback the subscriber client calls with its answer. It reads
  \<^verbatim>\<open>subsRefsMap\<close> as it is when the answer arrives; \<^verbatim>\<open>this.subsRefsMap[triggerName] || []\<close>
  is an inherited member when there is one, and spreading it throws.\<close>

definition subscribe_callback ::
  "'n RedisPubSub \<Rightarrow> nat \<Rightarrow> string \<Rightarrow> error option \<Rightarrow> 'n RedisPubSub \<times> promise" where
  "subscribe_callback ps sid triggerName err =
     (case err of
        Some e \<Rightarrow> (ps, Rejected e)
      | None \<Rightarrow>
          (case refsAt ps triggerName of
             ArrayOf refs \<Rightarrow>
               (ps\<lparr>subsRefsMap := (subsRefsMap ps)(triggerName \<mapsto> refs @ [sid])\<rparr>, Resolved sid)
           | Undefined \<Rightarrow>
               (ps\<lparr>subsRefsMap := (subsRefsMap ps)(triggerName \<mapsto> [] @ [sid])\<rparr>, Resolved sid)
           | FunctionOfLength n \<Rightarrow> (ps, NeverSettled TypeError)
           | PrototypeObject \<Rightarrow> (ps, NeverSettled TypeError)))"

text \<open>A subscribe call whose transport answer \<open>err\<close> arrives before any other call on
  the instance.\<close>

definition subscribe ::
  "'n RedisPubSub \<Rightarrow> string \<Rightarrow> 'n listener \<Rightarrow> options \<Rightarrow> error option
     \<Rightarrow> 'n RedisPubSub \<times> promise" where
  "subscribe ps trigger onMessage opts err =
     (case subscribe_sync ps trigger onMessage opts of
        (ps1, Settled p) \<Rightarrow> (ps1, p)
      | (ps1, AwaitingTransport sid triggerName) \<Rightarrow> subscribe_callback ps1 sid triggerName err)"

subsection \<open>unsubscribe\<close>

text \<open>\<^verbatim>\<open>Array.prototype.indexOf\<close>: the first position of the element, or -1.\<close>

fun indexOf :: "nat list \<Rightarrow> nat \<Rightarrow> int" where
  "indexOf [] x = -1"
| "indexOf (y # ys) x =
     (if y = x then 0 else (let i = indexOf ys x in if i = -1 then -1 else i + 1))"

text \<open>A JavaScript property key: \<^verbatim>\<open>obj[null]\<close> reads the property named
  \<^verbatim>\<open>"null"\<close>.\<close>

definition propertyKey :: "string option \<Rightarrow> string" where
  "propertyKey k = (case k of None \<Rightarrow> ''null'' | Some s \<Rightarrow> s)"

text \<open>Lines 115-136. \<open>triggerName\<close> is the first component of the id's record, or
  \<^verbatim>\<open>null\<close> when the id has none (line 116); the test of line 119 is on what is found in
  \<^verbatim>\<open>subsRefsMap\<close> under that key, not on the record. An inherited function of length 1
  passes the test of line 121 (the \<^verbatim>\<open>delete\<close> of line 126 then removes nothing); any
  other inherited member reaches \<^verbatim>\<open>refs.indexOf\<close>, which it does not have.\<close>

definition unsubscribe :: "'n RedisPubSub \<Rightarrow> nat \<Rightarrow> error + 'n RedisPubSub" where
  "unsubscribe ps subId =
     (let triggerName = (case subscriptionMap ps subId of
                           Some (t, _) \<Rightarrow> Some t
                         | None \<Rightarrow> None);
          key = propertyKey triggerName;
          torn = ps\<lparr>calls := calls ps @ [Unsubscribe triggerName, PUnsubscribe triggerName],
                    subsRefsMap := (subsRefsMap ps)(key := None)\<rparr>
      in case refsAt ps key of
           Undefined \<Rightarrow> Inl (NoSubscription subId)
         | ArrayOf refs \<Rightarrow>
             (let ps1 =
                (if length refs = 1
                 then torn
                 else
                   (let index = indexOf refs subId;
                        newRefs = (if index = -1 then refs
                                   else take (nat index) refs @ drop (nat (index + 1)) refs)
                    in ps\<lparr>subsRefsMap := (subsRefsMap ps)(key \<mapsto> newRefs)\<rparr>))
              in Inr (ps1\<lparr>subscriptionMap := (subscriptionMap ps1)(subId := None)\<rparr>))
         | FunctionOfLength n \<Rightarrow>
             if n = 1
             then Inr (torn\<lparr>subscriptionMap := (subscriptionMap torn)(subId := None)\<rparr>)
             else Inl TypeError
         | PrototypeObject \<Rightarrow> Inl TypeError)"

subsection \<open>onMessage\<close>

text \<open>Line 158, \<^verbatim>\<open>pattern || channel\<close>: the pattern when it is a non-empty string, the
  channel when it is \<^verbatim>\<open>undefined\<close> or the empty string.\<close>

definition dispatch_key :: "string option \<Rightarrow> string \<Rightarrow> string" where
  "dispatch_key pat channel =
     (case pat of
        None \<Rightarrow> channel
      | Some p \<Rightarrow> if p = [] then channel else p)"

text \<open>Line 165: the custom deserializer when one is configured, \<^verbatim>\<open>JSON.parse\<close> with
  the reviver otherwise. Either may throw.\<close>

definition deserialize :: "'n runtime \<Rightarrow> 'n RedisPubSub \<Rightarrow> string \<Rightarrow> error + 'n jsvalue" where
  "deserialize rt ps message =
     (case deserializer ps of
        Some d \<Rightarrow> d message
      | None \<Rightarrow> JSON_parse rt message (reviver ps))"

text \<open>Lines 163-168, the \<^verbatim>\<open>try\<close>/\<^verbatim>\<open>catch\<close> around it: the value the decoder returns
  (this is call number \<open>decoded ps\<close>), or, when the decoder throws, the message
  itself.\<close>

definition decode :: "'n runtime \<Rightarrow> 'n RedisPubSub \<Rightarrow> string \<Rightarrow> 'n argument" where
  "decode rt ps message =
     (case deserialize rt ps message of
        Inr v \<Rightarrow> FromDecoder (decoded ps) v
      | Inl e \<Rightarrow> RawMessage message)"

text \<open>What a delivery does, in order: one entry per call of the decoder and per call of
  a listener.\<close>

datatype 'n event = Decode string | Invoke "'n listener" "'n argument"

text \<open>The calls a listener makes on the instance while it runs. An \<^verbatim>\<open>unsubscribe\<close> that
  throws changes nothing; of a \<^verbatim>\<open>subscribe\<close> only the synchronous part runs before the
  listener returns.\<close>

fun reenter :: "'n RedisPubSub \<Rightarrow> 'n reentry list \<Rightarrow> 'n RedisPubSub" where
  "reenter ps [] = ps"
| "reenter ps (CallUnsubscribe subId # cs) =
     reenter (case unsubscribe ps subId of Inr ps' \<Rightarrow> ps' | Inl e \<Rightarrow> ps) cs"
| "reenter ps (CallSubscribe trigger l opts # cs) =
     reenter (fst (subscribe_sync ps trigger l opts)) cs"

text \<open>Lines 170-173, the loop over the ids of the array found at line 158 (the array
  itself is never changed in place, so the loop goes through it as it was). Each turn
  reads the id's record in the instance as it is then (line 171): destructuring the
  record of an id that has none throws a \<^verbatim>\<open>TypeError\<close>. A listener that throws ends the
  loop, since nothing catches it.\<close>

fun fanout ::
  "'n RedisPubSub \<Rightarrow> nat list \<Rightarrow> 'n argument
     \<Rightarrow> 'n RedisPubSub \<times> 'n event list \<times> error option" where
  "fanout ps [] parsedMessage = (ps, [], None)"
| "fanout ps (subId # rest) parsedMessage =
     (case subscriptionMap ps subId of
        None \<Rightarrow> (ps, [], Some TypeError)
      | Some (_, l) \<Rightarrow>
          (let ps1 = reenter ps (lcalls l parsedMessage)
           in if lthrows l parsedMessage
              then (ps1, [Invoke l parsedMessage], Some (ListenerError (lname l)))
              else (let (ps2, evs, thrown) = fanout ps1 rest parsedMessage
                    in (ps2, Invoke l parsedMessage # evs, thrown))))"

record 'n delivery =
  after :: "'n RedisPubSub"
  events :: "'n event list"
  thrown :: "error option"

text \<open>Lines 157-174. The test of line 161 returns on \<^verbatim>\<open>undefined\<close>, on an empty array,
  on an inherited function of length 0 and on the prototype object (whose \<^verbatim>\<open>length\<close>
  is \<^verbatim>\<open>undefined\<close>); an inherited function of length 1 or more passes it, the message
  is decoded, and \<^verbatim>\<open>for ... of\<close> on the function throws a \<^verbatim>\<open>TypeError\<close>.\<close>

definition onMessage ::
  "'n runtime \<Rightarrow> 'n RedisPubSub \<Rightarrow> string option \<Rightarrow> string \<Rightarrow> string \<Rightarrow> 'n delivery" where
  "onMessage rt ps pat channel message =
     (let dropped = \<lparr>after = ps, events = [], thrown = None\<rparr>;
          parsedMessage = decode rt ps message;
          ps1 = ps\<lparr>decoded := decoded ps + 1\<rparr>
      in case refsAt ps (dispatch_key pat channel) of
           Undefined \<Rightarrow> dropped
         | ArrayOf subscribers \<Rightarrow>
             if length subscribers = 0
             then dropped
             else (let (ps2, evs, t) = fanout ps1 subscribers parsedMessage
                   in \<lparr>after = ps2, events = Decode message # evs, thrown = t\<rparr>)
         | FunctionOfLength n \<Rightarrow>
             if n = 0
             then dropped
             else \<lparr>after = ps1, events = [Decode message], thrown = Some TypeError\<rparr>
         | PrototypeObject \<Rightarrow> dropped)"

subsection \<open>Reading the tables\<close>

text \<open>The listener an id is bound to, when the id has a record.\<close>

definition listenerOf :: "'n RedisPubSub \<Rightarrow> nat \<Rightarrow> 'n listener option" where
  "listenerOf ps subId =
     (case subscriptionMap ps subId of Some (_, l) \<Rightarrow> Some l | None \<Rightarrow> None)"

text \<open>The two directions of the correspondence between the tables. Every id of an
  array of \<^verbatim>\<open>subsRefsMap\<close> has a record, and the record names the channel the array is
  stored under:\<close>

definition refs_have_records :: "'n RedisPubSub \<Rightarrow> bool" where
  "refs_have_records ps \<longleftrightarrow>
     (\<forall>t refs. subsRefsMap ps t = Some refs \<longrightarrow>
        (\<forall>i\<in>set refs. \<exists>l. subscriptionMap ps i = Some (t, l)))"

text \<open>and every record's id is in the array of the record's channel:\<close>

definition records_have_refs :: "'n RedisPubSub \<Rightarrow> bool" where
  "records_have_refs ps \<longleftrightarrow>
     (\<forall>i t l. subscriptionMap ps i = Some (t, l) \<longrightarrow>
        (\<exists>refs. subsRefsMap ps t = Some refs \<and> i \<in> set refs))"

definition ids_below_counter :: "'n RedisPubSub \<Rightarrow> bool" where
  "ids_below_counter ps \<longleftrightarrow>
     (\<forall>i. subscriptionMap ps i \<noteq> None \<longrightarrow> i < currentSubscriptionId ps)"

definition refs_distinct :: "'n RedisPubSub \<Rightarrow> bool" where
  "refs_distinct ps \<longleftrightarrow>
     (\<forall>t refs. subsRefsMap ps t = Some refs \<longrightarrow> distinct refs \<and> refs \<noteq> [])"

text \<open>The class never stores an array under a name the table inherits:\<close>

definition own_keys_plain :: "'n RedisPubSub \<Rightarrow> bool" where
  "own_keys_plain ps \<longleftrightarrow>
     (\<forall>k refs. subsRefsMap ps k = Some refs \<longrightarrow> Object_prototype k = Undefined)"

text \<open>What every sequence of completed calls keeps true (proved below): the first
  direction, fresh ids, arrays that are non-empty and without repetition, and no array
  under an inherited name.\<close>

definition consistent :: "'n RedisPubSub \<Rightarrow> bool" where
  "consistent ps \<longleftrightarrow>
     refs_have_records ps \<and> ids_below_counter ps \<and> refs_distinct ps \<and> own_keys_plain ps"

text \<open>The states an instance goes through: the constructor's, and those that completed
  calls of \<^verbatim>\<open>subscribe\<close>, \<^verbatim>\<open>unsubscribe\<close> and \<^verbatim>\<open>publish\<close> and the delivery of a message
  lead to.\<close>

inductive reachable :: "'n RedisPubSub \<Rightarrow> bool" where
  constructed: "new_RedisPubSub opts = Inr ps \<Longrightarrow> reachable ps"
| subscribed: "reachable ps \<Longrightarrow> reachable (fst (subscribe ps trigger l opts err))"
| unsubscribed: "reachable ps \<Longrightarrow> unsubscribe ps subId = Inr ps' \<Longrightarrow> reachable ps'"
| published: "reachable ps \<Longrightarrow> reachable (fst (publish rt ps trigger payload err))"
| delivered: "reachable ps \<Longrightarrow> reachable (after (onMessage rt ps pat channel message))"

subsection \<open>Example instances\<close>

text \<open>Instances, listeners and a runtime for the concrete cases below. Numbers are
  integers here.\<close>

definition default_options :: "int PubSubRedisOptions" where
  "default_options = \<lparr> opt_triggerTransform = None, opt_reviver = None,
                       opt_serializer = None, opt_deserializer = None \<rparr>"

definition fresh :: "int RedisPubSub" where
  "fresh = \<lparr> triggerTransform = (\<lambda>trigger _. trigger), reviver = None,
             serializer = None, deserializer = None,
             subscriptionMap = Map.empty, subsRefsMap = Map.empty,
             currentSubscriptionId = 0, calls = [], decoded = 0 \<rparr>"

definition literal :: options where
  "literal = \<lparr> pattern = False \<rparr>"


text \<open>Listeners that make no call on the instance: one that never throws, one that
  always throws, and one that throws when it is handed the raw message (as a listener
  that reads a field of a field of its argument does when handed a string).\<close>

definition quiet :: "nat \<Rightarrow> int listener" where
  "quiet n = Listener n (\<lambda>_. False) (\<lambda>_. [])"

definition faulty :: "nat \<Rightarrow> int listener" where
  "faulty n = Listener n (\<lambda>_. True) (\<lambda>_. [])"

definition picky :: "nat \<Rightarrow> int listener" where
  "picky n = Listener n (\<lambda>a. case a of RawMessage _ \<Rightarrow> True | _ \<Rightarrow> False) (\<lambda>_. [])"

text \<open>A listener that never throws and, when called, unsubscribes the given id.\<close>

definition leaver :: "nat \<Rightarrow> nat \<Rightarrow> int listener" where
  "leaver n subId = Listener n (\<lambda>_. False) (\<lambda>_. [CallUnsubscribe subId])"

text \<open>A runtime that knows the three JSON literals and nothing else.\<close>

definition literal_json :: "int runtime" where
  "literal_json =
     \<lparr> JSON_stringify = (\<lambda>v. case v of
                             JNull \<Rightarrow> Inr ''null''
                           | JBool b \<Rightarrow> Inr (if b then ''true'' else ''false'')
                           | _ \<Rightarrow> Inl CodecError),
       JSON_parse = (\<lambda>s r. if s = ''null'' then Inr JNull
                            else if s = ''true'' then Inr (JBool True)
                            else if s = ''false'' then Inr (JBool False)
                            else Inl CodecError) \<rparr>"

text \<open>An instance whose trigger transform keeps the first four characters of the
  trigger, so that \<^verbatim>\<open>chat.room1\<close> and \<^verbatim>\<open>chat.room2\<close> share the channel \<^verbatim>\<open>chat\<close>.\<close>

definition by_prefix :: "int RedisPubSub" where
  "by_prefix = fresh\<lparr>triggerTransform := (\<lambda>trigger _. take 4 trigger)\<rparr>"

text \<open>States reached by successful subscribe calls on these instances.\<close>

definition one_on_x :: "int RedisPubSub" where
  "one_on_x = fst (subscribe fresh ''x'' (quiet 1) literal None)"

definition three_on_a :: "int RedisPubSub" where
  "three_on_a =
     fst (subscribe
       (fst (subscribe
          (fst (subscribe fresh ''a'' (quiet 1) literal None))
          ''a'' (faulty 2) literal None))
       ''a'' (quiet 3) literal None)"




text \<open>A successful subscribe to \<^verbatim>\<open>a\<close> followed by a subscribe to \<^verbatim>\<open>b\<close> that the
  transport refuses.\<close>

definition refused_b :: "int RedisPubSub" where
  "refused_b =
     fst (subscribe
       (fst (subscribe fresh ''a'' (quiet 1) literal None))
       ''b'' (quiet 2) literal (Some (TransportError ''ECONNREFUSED'')))"


text \<open>The same two calls, with \<^verbatim>\<open>unsubscribe(0)\<close> running between the confirmation of
  id 1 and that of id 0.\<close>

definition racing :: "int RedisPubSub" where
  "racing =
     fst (subscribe_callback
       (case unsubscribe
          (fst (subscribe_callback
             (fst (subscribe_sync
                (fst (subscribe_sync fresh ''c'' (quiet 1) literal))
                ''c'' (quiet 2) literal))
             1 ''c'' None))
          0 of Inr ps \<Rightarrow> ps | Inl e \<Rightarrow> fresh)
       0 ''c'' None)"


section \<open>Properties\<close>

subsection \<open>Auxiliary facts\<close>

lemma indexOf_ge: "indexOf xs x \<ge> -1"
  by (induction xs) (auto simp: Let_def)

text \<open>\<^verbatim>\<open>indexOf\<close> followed by the two slices of lines 128-132 removes the first
  occurrence of the id.\<close>

lemma indexOf_remove1:
  "(if indexOf xs x = -1 then xs
    else take (nat (indexOf xs x)) xs @ drop (nat (indexOf xs x + 1)) xs) = remove1 x xs"
proof (induction xs)
  case Nil
  show ?case by simp
next
  case (Cons y ys)
  show ?case
  proof (cases "y = x")
    case True
    then show ?thesis by simp
  next
    case False
    have ge: "indexOf ys x \<ge> -1" by (rule indexOf_ge)
    show ?thesis
    proof (cases "indexOf ys x = -1")
      case True
      with False Cons show ?thesis by (simp add: Let_def)
    next
      case n: False
      with ge have nn: "indexOf ys x \<ge> 0" by arith
      then have a: "nat (indexOf ys x + 1) = Suc (nat (indexOf ys x))" by simp
      have b: "nat (indexOf ys x + 1 + 1) = Suc (Suc (nat (indexOf ys x)))" using nn by simp
      have c: "indexOf ys x + 1 \<noteq> -1" using nn by simp
      from False n Cons a b c show ?thesis by (simp add: Let_def)
    qed
  qed
qed

text \<open>Reading \<^verbatim>\<open>subsRefsMap\<close> under a key: an array the class stored is found; where
  there is none, a name that nothing is inherited under reads as \<^verbatim>\<open>undefined\<close>.\<close>

lemma refsAt_own: "subsRefsMap ps key = Some refs \<Longrightarrow> refsAt ps key = ArrayOf refs"
  by (simp add: refsAt_def)

lemma refsAt_plain:
  "subsRefsMap ps key = None \<Longrightarrow> Object_prototype key = Undefined \<Longrightarrow> refsAt ps key = Undefined"
  by (simp add: refsAt_def)

lemma Object_prototype_no_array [simp]: "Object_prototype k \<noteq> ArrayOf refs"
  by (simp add: Object_prototype_def)

lemma plain_names [simp]:
  "Object_prototype ''news'' = Undefined" "Object_prototype ''null'' = Undefined"
  "Object_prototype ''a'' = Undefined" "Object_prototype ''b'' = Undefined"
  "Object_prototype ''c'' = Undefined" "Object_prototype ''x'' = Undefined"
  "Object_prototype ''chat'' = Undefined" "Object_prototype ''news.*'' = Undefined"
  "Object_prototype '''' = Undefined" "Object_prototype ''y*'' = Undefined"
  by (simp_all add: Object_prototype_def)

text \<open>The three ways a subscribe call whose answer arrives at once can go, on a channel
  whose name is not an inherited one.\<close>

lemma subscribe_shared:
  assumes "subsRefsMap ps (triggerTransform ps trigger opts) = Some refs" and "refs \<noteq> []"
  shows "subscribe ps trigger l opts err =
           (ps\<lparr>currentSubscriptionId := currentSubscriptionId ps + 1,
               subscriptionMap := (subscriptionMap ps)
                 (currentSubscriptionId ps \<mapsto> (triggerTransform ps trigger opts, l)),
               subsRefsMap := (subsRefsMap ps)
                 (triggerTransform ps trigger opts \<mapsto> refs @ [currentSubscriptionId ps])\<rparr>,
            Resolved (currentSubscriptionId ps))"
  using assms by (simp add: subscribe_def subscribe_sync_def refsAt_def Let_def)

lemma subscribe_first_confirmed:
  assumes "subsRefsMap ps (triggerTransform ps trigger opts) = None"
    and "Object_prototype (triggerTransform ps trigger opts) = Undefined"
  shows "subscribe ps trigger l opts None =
           (ps\<lparr>currentSubscriptionId := currentSubscriptionId ps + 1,
               subscriptionMap := (subscriptionMap ps)
                 (currentSubscriptionId ps \<mapsto> (triggerTransform ps trigger opts, l)),
               calls := calls ps @
                 [if pattern opts then PSubscribe (triggerTransform ps trigger opts)
                  else Subscribe (triggerTransform ps trigger opts)],
               subsRefsMap := (subsRefsMap ps)
                 (triggerTransform ps trigger opts \<mapsto> [currentSubscriptionId ps])\<rparr>,
            Resolved (currentSubscriptionId ps))"
  using assms
  by (simp add: subscribe_def subscribe_sync_def subscribe_callback_def refsAt_def Let_def)

lemma subscribe_first_failed:
  assumes "subsRefsMap ps (triggerTransform ps trigger opts) = None"
    and "Object_prototype (triggerTransform ps trigger opts) = Undefined"
  shows "subscribe ps trigger l opts (Some e) =
           (ps\<lparr>currentSubscriptionId := currentSubscriptionId ps + 1,
               subscriptionMap := (subscriptionMap ps)
                 (currentSubscriptionId ps \<mapsto> (triggerTransform ps trigger opts, l)),
               calls := calls ps @
                 [if pattern opts then PSubscribe (triggerTransform ps trigger opts)
                  else Subscribe (triggerTransform ps trigger opts)]\<rparr>,
            Rejected e)"
  using assms
  by (simp add: subscribe_def subscribe_sync_def subscribe_callback_def refsAt_def Let_def)

text \<open>On a channel named like an inherited function the call behaves differently: with a
  function of length 1 or more \<^verbatim>\<open>subscribe\<close> throws before anything is sent, with one of
  length 0 the callback throws and the promise never settles. The record of line 89
  stays in both cases.\<close>

lemma subscribe_inherited_name:
  "subscribe fresh ''constructor'' (quiet 1) literal None =
     (fresh\<lparr>currentSubscriptionId := 1, subscriptionMap := [0 \<mapsto> (''constructor'', quiet 1)]\<rparr>,
      Threw TypeError)"
  "subscribe fresh ''toString'' (quiet 1) literal None =
     (fresh\<lparr>currentSubscriptionId := 1, subscriptionMap := [0 \<mapsto> (''toString'', quiet 1)],
            calls := [Subscribe ''toString'']\<rparr>,
      NeverSettled TypeError)"
  by (simp_all add: subscribe_def subscribe_sync_def subscribe_callback_def refsAt_def
      Object_prototype_def fresh_def literal_def Let_def)

text \<open>\<^verbatim>\<open>unsubscribe\<close> where an array is stored under the key, with the removal written
  as \<open>remove1\<close>, and where nothing is found.\<close>

lemma unsubscribe_own:
  assumes "subsRefsMap ps (propertyKey (map_option fst (subscriptionMap ps subId))) = Some refs"
  shows "unsubscribe ps subId =
     Inr (if length refs = 1
          then ps\<lparr>calls := calls ps @ [Unsubscribe (map_option fst (subscriptionMap ps subId)),
                                       PUnsubscribe (map_option fst (subscriptionMap ps subId))],
                  subsRefsMap := (subsRefsMap ps)
                    (propertyKey (map_option fst (subscriptionMap ps subId)) := None),
                  subscriptionMap := (subscriptionMap ps)(subId := None)\<rparr>
          else ps\<lparr>subsRefsMap := (subsRefsMap ps)
                    (propertyKey (map_option fst (subscriptionMap ps subId)) \<mapsto> remove1 subId refs),
                  subscriptionMap := (subscriptionMap ps)(subId := None)\<rparr>)"
proof -
  have tn: "(case subscriptionMap ps subId of Some (t, _) \<Rightarrow> Some t | None \<Rightarrow> None)
            = map_option fst (subscriptionMap ps subId)"
    by (simp split: option.splits prod.splits)
  show ?thesis
    unfolding unsubscribe_def tn Let_def indexOf_remove1
    using assms by (simp add: refsAt_def)
qed

lemma unsubscribe_nothing:
  assumes "refsAt ps (propertyKey (map_option fst (subscriptionMap ps subId))) = Undefined"
  shows "unsubscribe ps subId = Inl (NoSubscription subId)"
proof -
  have tn: "(case subscriptionMap ps subId of Some (t, _) \<Rightarrow> Some t | None \<Rightarrow> None)
            = map_option fst (subscriptionMap ps subId)"
    by (simp split: option.splits prod.splits)
  show ?thesis
    unfolding unsubscribe_def tn Let_def using assms by simp
qed

text \<open>The constructor.\<close>

lemma new_default: "new_RedisPubSub default_options = Inr fresh"
  by (simp add: new_RedisPubSub_def default_options_def fresh_def)

lemma new_reviver_and_deserializer:
  "opt_reviver opts = Some r \<Longrightarrow> opt_deserializer opts = Some d
   \<Longrightarrow> new_RedisPubSub opts = Inl ReviverAndDeserializer"
  by (simp add: new_RedisPubSub_def)

subsection \<open>The example states, written out\<close>

lemma one_on_x_eq:
  "one_on_x = fresh\<lparr>currentSubscriptionId := 1,
       subscriptionMap := [0 \<mapsto> (''x'', quiet 1)],
       calls := [Subscribe ''x''],
       subsRefsMap := [''x'' \<mapsto> [0]]\<rparr>"
  by (simp add: one_on_x_def subscribe_first_confirmed fresh_def literal_def)

lemma three_on_a_eq:
  "three_on_a = fresh\<lparr>currentSubscriptionId := 3,
       subscriptionMap := [0 \<mapsto> (''a'', quiet 1), 1 \<mapsto> (''a'', faulty 2), 2 \<mapsto> (''a'', quiet 3)],
       calls := [Subscribe ''a''],
       subsRefsMap := [''a'' \<mapsto> [0, 1, 2]]\<rparr>"
  by (simp add: three_on_a_def subscribe_first_confirmed subscribe_shared fresh_def literal_def
        numeral_2_eq_2 numeral_3_eq_3)






lemma racing_eq:
  "racing = fresh\<lparr>currentSubscriptionId := 2,
       subscriptionMap := [1 \<mapsto> (''c'', quiet 2)],
       calls := [Subscribe ''c'', Subscribe ''c'', Unsubscribe (Some ''c''), PUnsubscribe (Some ''c'')],
       subsRefsMap := [''c'' \<mapsto> [0]]\<rparr>"
  by (simp add: racing_def subscribe_sync_def subscribe_callback_def unsubscribe_own refsAt_def
      propertyKey_def fresh_def literal_def Let_def numeral_2_eq_2)

text \<open>The definitions unfolded when a delivery to one of these states is evaluated.\<close>

lemmas eval_defs = onMessage_def refsAt_def dispatch_key_def decode_def deserialize_def
  literal_json_def fresh_def by_prefix_def listenerOf_def quiet_def faulty_def picky_def
  leaver_def Let_def

subsection \<open>The fan-out loop\<close>

text \<open>The decoder-call counter is touched by \<^verbatim>\<open>onMessage\<close> alone.\<close>

lemma listenerOf_decoded [simp]: "listenerOf (ps\<lparr>decoded := n\<rparr>) = listenerOf ps"
  by (rule ext) (simp add: listenerOf_def)





text \<open>When every id has a record and no listener throws or calls back into the instance,
  the loop invokes the listeners of the ids in order and returns normally.\<close>

lemma fanout_all:
  assumes "map (listenerOf ps) subs = map Some ls"
    and "\<forall>l\<in>set ls. \<not> lthrows l v \<and> lcalls l v = []"
  shows "fanout ps subs v = (ps, map (\<lambda>l. Invoke l v) ls, None)"
  using assms
proof (induction subs arbitrary: ls)
  case Nil
  then show ?case by simp
next
  case (Cons i subs)
  from Cons.prems(1) obtain l ls' where ls: "ls = l # ls'"
    and l: "listenerOf ps i = Some l" and rest: "map (listenerOf ps) subs = map Some ls'"
    by (cases ls) auto
  from l obtain t where rec: "subscriptionMap ps i = Some (t, l)"
    by (auto simp: listenerOf_def split: option.splits)
  from Cons.prems(2) ls have nl: "\<not> lthrows l v" and nc: "lcalls l v = []"
    and nls: "\<forall>l\<in>set ls'. \<not> lthrows l v \<and> lcalls l v = []"
    by auto
  from Cons.IH [OF rest nls] rec nl nc ls show ?case by simp
qed

text \<open>A loop that got through a first part of the array normally goes on with the rest
  from the state it has reached; it has then invoked one listener per id, none of which
  threw.\<close>

lemma fanout_append:
  assumes "fanout ps pre v = (ps', evs, None)"
  shows "fanout ps (pre @ rest) v =
           (fst (fanout ps' rest v), evs @ fst (snd (fanout ps' rest v)),
            snd (snd (fanout ps' rest v)))"
  using assms
proof (induction pre arbitrary: ps evs)
  case Nil
  then show ?case by simp
next
  case (Cons i pre)
  from Cons.prems obtain t l where rec: "subscriptionMap ps i = Some (t, l)"
    by (auto split: option.splits)
  from Cons.prems rec have nl: "\<not> lthrows l v"
    by (auto simp: Let_def split: if_splits)
  from Cons.prems rec nl obtain evs' where
    run: "fanout (reenter ps (lcalls l v)) pre v = (ps', evs', None)" and evs: "evs = Invoke l v # evs'"
    by (auto simp: Let_def split: prod.splits)
  from Cons.IH [OF run] rec nl evs show ?case by (simp add: Let_def split: prod.splits)
qed

lemma fanout_completed:
  assumes "fanout ps subs v = (ps', evs, None)"
  shows "length evs = length subs \<and> (\<forall>e\<in>set evs. \<exists>l. e = Invoke l v \<and> \<not> lthrows l v)"
  using assms
proof (induction subs arbitrary: ps evs)
  case Nil
  then show ?case by simp
next
  case (Cons i subs)
  from Cons.prems obtain t l where rec: "subscriptionMap ps i = Some (t, l)"
    by (auto split: option.splits)
  from Cons.prems rec have nl: "\<not> lthrows l v"
    by (auto simp: Let_def split: if_splits)
  from Cons.prems rec nl obtain evs' where
    run: "fanout (reenter ps (lcalls l v)) subs v = (ps', evs', None)" and evs: "evs = Invoke l v # evs'"
    by (auto simp: Let_def split: prod.splits)
  from Cons.IH [OF run] nl evs show ?case by auto
qed

text \<open>A listener that throws ends the loop.\<close>

lemma fanout_throwing:
  assumes "listenerOf ps i = Some bad" and "lthrows bad v"
  shows "fanout ps (i # post) v =
           (reenter ps (lcalls bad v), [Invoke bad v], Some (ListenerError (lname bad)))"
proof -
  from assms(1) obtain t where "subscriptionMap ps i = Some (t, bad)"
    by (auto simp: listenerOf_def split: option.splits)
  with assms(2) show ?thesis by simp
qed


text \<open>\<^verbatim>\<open>onMessage\<close> on a key with a non-empty array, on a key where nothing or an empty
  array is found, and on a key without an array of its own.\<close>

lemma onMessage_fanout:
  assumes "subsRefsMap ps (dispatch_key pat channel) = Some subs" and "subs \<noteq> []"
  shows "onMessage rt ps pat channel message =
           \<lparr>after = fst (fanout (ps\<lparr>decoded := decoded ps + 1\<rparr>) subs (decode rt ps message)),
            events = Decode message
              # fst (snd (fanout (ps\<lparr>decoded := decoded ps + 1\<rparr>) subs (decode rt ps message))),
            thrown = snd (snd (fanout (ps\<lparr>decoded := decoded ps + 1\<rparr>) subs (decode rt ps message)))\<rparr>"
  using assms by (simp add: onMessage_def refsAt_def Let_def split: prod.splits)

lemma onMessage_dropped:
  assumes "refsAt ps (dispatch_key pat channel) = Undefined
           \<or> subsRefsMap ps (dispatch_key pat channel) = Some []"
  shows "onMessage rt ps pat channel message = \<lparr>after = ps, events = [], thrown = None\<rparr>"
  using assms by (auto simp: onMessage_def refsAt_def Let_def)

lemma onMessage_no_array:
  assumes "subsRefsMap ps (dispatch_key pat channel) = None"
  shows "\<forall>e\<in>set (events (onMessage rt ps pat channel message)). e = Decode message"
  using assms by (auto simp: onMessage_def refsAt_def Let_def split: property.splits)

text \<open>The dispatch key: a message is handled as a message without pattern on the channel
  named by its key.\<close>

lemma dispatch_key_cases:
  "dispatch_key None channel = channel"
  "dispatch_key (Some []) channel = channel"
  "dispatch_key (Some (c # cs)) channel = c # cs"
  by (simp_all add: dispatch_key_def)

lemma onMessage_by_key:
  "onMessage rt ps pat channel message = onMessage rt ps None (dispatch_key pat channel) message"
  by (simp add: onMessage_def dispatch_key_def)




subsection \<open>A subscribe the transport refuses\<close>

text \<open>  Claim C1: when the transport subscribe reports an error, the returned promise fails
  and nothing of the call is retained: no array exists in \<^verbatim>\<open>subsRefsMap\<close> for the
  channel and no record for the allocated id remains in \<^verbatim>\<open>subscriptionMap\<close>.

  The code rejects the promise and creates no array, but the record written at line 89
  is never removed: after a refused subscribe to \<^verbatim>\<open>news\<close> on a new instance, id 0,
  which had no record before the call, has the record of the failed call.\<close>

theorem subscribe_failure_keeps_record:
  "subscribe fresh ''news'' (quiet 7) literal (Some (TransportError ''ECONNREFUSED'')) =
     (fresh\<lparr>currentSubscriptionId := 1,
            subscriptionMap := [0 \<mapsto> (''news'', quiet 7)],
            calls := [Subscribe ''news'']\<rparr>,
      Rejected (TransportError ''ECONNREFUSED''))
   \<and> subscriptionMap fresh 0 = None
   \<and> subscriptionMap
         (fst (subscribe fresh ''news'' (quiet 7) literal (Some (TransportError ''ECONNREFUSED''))))
         0 = Some (''news'', quiet 7)"
  by (simp add: subscribe_first_failed fresh_def literal_def)

text \<open>The record that stays behind is not inert. Once a later subscribe to the same
  channel has succeeded (id 1), \<^verbatim>\<open>unsubscribe(0)\<close> with the id of the failed call does
  not throw: it finds the array of id 1, sees one element, unsubscribes the channel at
  the transport and deletes the array, while the record of id 1 stays.\<close>

lemma failed_id_tears_down_channel:
  "unsubscribe
     (fst (subscribe
        (fst (subscribe fresh ''news'' (quiet 7) literal (Some (TransportError ''ECONNREFUSED''))))
        ''news'' (quiet 8) literal None))
     0 =
   Inr (fresh\<lparr>currentSubscriptionId := 2,
             subscriptionMap := [1 \<mapsto> (''news'', quiet 8)],
             calls := [Subscribe ''news'', Subscribe ''news'',
                       Unsubscribe (Some ''news''), PUnsubscribe (Some ''news'')]\<rparr>)"
  by (simp add: subscribe_first_failed subscribe_first_confirmed fresh_def literal_def
      unsubscribe_own propertyKey_def numeral_2_eq_2)

subsection \<open>A listener that throws\<close>

text \<open>  Claim C2, as amended: the loop of lines 170-173 has no \<^verbatim>\<open>try\<close>, so a listener that
  throws is the last one invoked. The listeners before it in the array have been invoked
  with the decoded value, the exception leaves \<^verbatim>\<open>onMessage\<close>, and no listener after it
  is invoked for this message.

  The statement has two parts. The first names the listeners before the throwing one
  from the state in which the message arrives, for listeners that make no call on the
  instance. The second covers listeners that do: whenever the loop has got through the
  ids before \<open>i\<close> normally and then finds, for \<open>i\<close>, a listener that throws, it has
  invoked one listener per id before \<open>i\<close>, then the throwing one, and nothing else.\<close>

theorem throwing_listener_ends_fanout:
  assumes "subsRefsMap ps (dispatch_key pat channel) = Some (pre @ i # post)"
    and "lthrows bad (decode rt ps message)"
  shows "(map (listenerOf ps) pre = map Some ls
          \<and> (\<forall>l\<in>set ls. \<not> lthrows l (decode rt ps message)
                          \<and> lcalls l (decode rt ps message) = [])
          \<and> listenerOf ps i = Some bad
          \<longrightarrow> events (onMessage rt ps pat channel message) =
                Decode message # map (\<lambda>l. Invoke l (decode rt ps message)) ls
                  @ [Invoke bad (decode rt ps message)]
              \<and> thrown (onMessage rt ps pat channel message) = Some (ListenerError (lname bad)))
       \<and> (fanout (ps\<lparr>decoded := decoded ps + 1\<rparr>) pre (decode rt ps message) = (ps', evs, None)
          \<and> listenerOf ps' i = Some bad
          \<longrightarrow> events (onMessage rt ps pat channel message) =
                Decode message # evs @ [Invoke bad (decode rt ps message)]
              \<and> thrown (onMessage rt ps pat channel message) = Some (ListenerError (lname bad))
              \<and> length evs = length pre
              \<and> (\<forall>e\<in>set evs. \<exists>l. e = Invoke l (decode rt ps message)
                                    \<and> \<not> lthrows l (decode rt ps message)))"
proof -
  let ?v = "decode rt ps message"
  let ?ps1 = "ps\<lparr>decoded := decoded ps + 1\<rparr>"
  have ne: "pre @ i # post \<noteq> []" by simp
  note om = onMessage_fanout [OF assms(1) ne, of rt message]
  have general: "events (onMessage rt ps pat channel message) = Decode message # evs @ [Invoke bad ?v]
              \<and> thrown (onMessage rt ps pat channel message) = Some (ListenerError (lname bad))
              \<and> length evs = length pre
              \<and> (\<forall>e\<in>set evs. \<exists>l. e = Invoke l ?v \<and> \<not> lthrows l ?v)"
    if run: "fanout ?ps1 pre ?v = (ps', evs, None)" and b: "listenerOf ps' i = Some bad"
    for ps' evs
  proof -
    have "fanout ?ps1 (pre @ i # post) ?v =
            (reenter ps' (lcalls bad ?v), evs @ [Invoke bad ?v], Some (ListenerError (lname bad)))"
      by (simp only: fanout_append [OF run] fanout_throwing [OF b assms(2)] fst_conv snd_conv)
    with fanout_completed [OF run] show ?thesis
      by (simp add: om)
  qed
  have plain: "events (onMessage rt ps pat channel message) =
                Decode message # map (\<lambda>l. Invoke l ?v) ls @ [Invoke bad ?v]
              \<and> thrown (onMessage rt ps pat channel message) = Some (ListenerError (lname bad))"
    if ls: "map (listenerOf ps) pre = map Some ls"
      and q: "\<forall>l\<in>set ls. \<not> lthrows l ?v \<and> lcalls l ?v = []"
      and b: "listenerOf ps i = Some bad"
  proof -
    from ls have ls1: "map (listenerOf ?ps1) pre = map Some ls" by simp
    have run: "fanout ?ps1 pre ?v = (?ps1, map (\<lambda>l. Invoke l ?v) ls, None)"
      by (rule fanout_all [OF ls1 q])
    from b have b1: "listenerOf ?ps1 i = Some bad" by simp
    from general [OF run b1] show ?thesis by simp
  qed
  from general plain show ?thesis by blast
qed

theorem throwing_listener_ends_fanout_witness:
  "subsRefsMap three_on_a (dispatch_key None ''a'') = Some ([0] @ 1 # [2])
   \<and> map (listenerOf three_on_a) [0] = map Some [quiet 1]
   \<and> listenerOf three_on_a 1 = Some (faulty 2)
   \<and> lthrows (faulty 2) (decode literal_json three_on_a ''true'')
   \<and> events (onMessage literal_json three_on_a None ''a'' ''true'') =
        [Decode ''true'', Invoke (quiet 1) (FromDecoder 0 (JBool True)),
         Invoke (faulty 2) (FromDecoder 0 (JBool True))]
   \<and> thrown (onMessage literal_json three_on_a None ''a'' ''true'') = Some (ListenerError 2)"
proof -
  have d: "decode literal_json three_on_a ''true'' = FromDecoder 0 (JBool True)"
    by (simp add: decode_def deserialize_def literal_json_def three_on_a_eq fresh_def)
  have h1: "subsRefsMap three_on_a (dispatch_key None ''a'') = Some ([0] @ 1 # [2])"
    by (simp add: three_on_a_eq dispatch_key_def)
  have h2: "map (listenerOf three_on_a) [0] = map Some [quiet 1]"
    by (simp add: three_on_a_eq listenerOf_def)
  have h3: "\<forall>l\<in>set [quiet 1]. \<not> lthrows l (decode literal_json three_on_a ''true'')
              \<and> lcalls l (decode literal_json three_on_a ''true'') = []"
    by (simp add: quiet_def)
  have h4: "listenerOf three_on_a 1 = Some (faulty 2)"
    by (simp add: three_on_a_eq listenerOf_def)
  have h5: "lthrows (faulty 2) (decode literal_json three_on_a ''true'')"
    by (simp add: faulty_def)
  from throwing_listener_ends_fanout [OF h1 h5, of "[quiet 1]"] h2 h3 h4
  have "events (onMessage literal_json three_on_a None ''a'' ''true'') =
          Decode ''true'' # map (\<lambda>l. Invoke l (decode literal_json three_on_a ''true'')) [quiet 1]
            @ [Invoke (faulty 2) (decode literal_json three_on_a ''true'')]
        \<and> thrown (onMessage literal_json three_on_a None ''a'' ''true'')
            = Some (ListenerError (lname (faulty 2)))"
    by blast
  with h1 h2 h4 h5 d show ?thesis by (simp add: faulty_def)
qed

text \<open>  Claim C2 as stated (a throwing listener never prevents delivery to the listeners after
  it) fails: with listeners 1, 2, 3 bound to channel \<^verbatim>\<open>a\<close> in this order and listener 2
  throwing, listener 3 is not invoked.\<close>

theorem throwing_listener_isolation_counterexample:
  "subsRefsMap three_on_a ''a'' = Some [0, 1, 2]
   \<and> listenerOf three_on_a 1 = Some (faulty 2)
   \<and> lthrows (faulty 2) (FromDecoder 0 (JBool True))
   \<and> listenerOf three_on_a 2 = Some (quiet 3)
   \<and> events (onMessage literal_json three_on_a None ''a'' ''true'') =
        [Decode ''true'', Invoke (quiet 1) (FromDecoder 0 (JBool True)),
         Invoke (faulty 2) (FromDecoder 0 (JBool True))]
   \<and> Invoke (quiet 3) (FromDecoder 0 (JBool True))
        \<notin> set (events (onMessage literal_json three_on_a None ''a'' ''true''))
   \<and> thrown (onMessage literal_json three_on_a None ''a'' ''true'') = Some (ListenerError 2)"
  by (simp add: three_on_a_eq onMessage_def refsAt_def dispatch_key_def decode_def deserialize_def
      literal_json_def fresh_def listenerOf_def quiet_def faulty_def Let_def)

subsection \<open>unsubscribe with an id that has no record\<close>

text \<open>  Claim C3: for an id with no record, \<^verbatim>\<open>unsubscribe\<close> fails with the unknown-subscription
  error, sends nothing to the transport and leaves both tables as they are, whatever
  other subscriptions exist.

  The code looks the array up under the record's channel name, which is \<^verbatim>\<open>null\<close> for
  such an id, and a property read with the key \<^verbatim>\<open>null\<close> reads the property named
  \<^verbatim>\<open>"null"\<close>. With one subscription to the channel \<^verbatim>\<open>null\<close> (id 0), \<^verbatim>\<open>unsubscribe(5)\<close>
  returns normally, sends \<^verbatim>\<open>unsubscribe(null)\<close> and \<^verbatim>\<open>punsubscribe(null)\<close>, and deletes
  the array of id 0.\<close>

theorem unsubscribe_unknown_id_null_channel:
  "subscribe fresh ''null'' (quiet 7) literal None =
     (fresh\<lparr>currentSubscriptionId := 1,
            subscriptionMap := [0 \<mapsto> (''null'', quiet 7)],
            calls := [Subscribe ''null''],
            subsRefsMap := [''null'' \<mapsto> [0]]\<rparr>,
      Resolved 0)
   \<and> subscriptionMap (fst (subscribe fresh ''null'' (quiet 7) literal None)) 5 = None
   \<and> unsubscribe (fst (subscribe fresh ''null'' (quiet 7) literal None)) 5 =
       Inr (fresh\<lparr>currentSubscriptionId := 1,
                 subscriptionMap := [0 \<mapsto> (''null'', quiet 7)],
                 calls := [Subscribe ''null'', Unsubscribe None, PUnsubscribe None]\<rparr>)"
  by (simp add: subscribe_first_confirmed fresh_def literal_def unsubscribe_own
      propertyKey_def)

text \<open>Where no array is stored under \<^verbatim>\<open>"null"\<close>, the call does what the claim says: it
  throws before anything is changed or sent.\<close>

lemma unsubscribe_unknown_id:
  assumes "subscriptionMap ps subId = None" and "subsRefsMap ps ''null'' = None"
  shows "unsubscribe ps subId = Inl (NoSubscription subId)"
  using assms by (simp add: unsubscribe_nothing propertyKey_def refsAt_def)

subsection \<open>A payload that cannot be decoded\<close>




subsection \<open>Unsubscribing the last id of a channel\<close>

text \<open>  Claim C5: for an id that has a record and is the only element of the array of its
  channel, \<^verbatim>\<open>unsubscribe\<close> returns normally, sends exactly one \<^verbatim>\<open>unsubscribe\<close> and one
  \<^verbatim>\<open>punsubscribe\<close> for that channel, deletes the array and the record and changes nothing
  else; a message dispatched on that channel afterwards reaches no listener. Where the
  channel's name is not an inherited one (as it is for every array the class stores,
  lemma \<open>reachable_own_keys\<close>), that message is dropped without being decoded.\<close>

theorem unsubscribe_last_reference:
  assumes "subscriptionMap ps subId = Some (t, l)" and "subsRefsMap ps t = Some [subId]"
  shows "\<exists>ps'. unsubscribe ps subId = Inr ps'
           \<and> ps' = ps\<lparr>calls := calls ps @ [Unsubscribe (Some t), PUnsubscribe (Some t)],
                       subsRefsMap := (subsRefsMap ps)(t := None),
                       subscriptionMap := (subscriptionMap ps)(subId := None)\<rparr>
           \<and> calls ps' = calls ps @ [Unsubscribe (Some t), PUnsubscribe (Some t)]
           \<and> subsRefsMap ps' t = None
           \<and> subscriptionMap ps' subId = None
           \<and> (\<forall>rt pat channel message. dispatch_key pat channel = t \<longrightarrow>
                 (\<forall>e\<in>set (events (onMessage rt ps' pat channel message)). e = Decode message)
                 \<and> (Object_prototype t = Undefined \<longrightarrow>
                      onMessage rt ps' pat channel message =
                        \<lparr>after = ps', events = [], thrown = None\<rparr>))"
proof -
  let ?ps' = "ps\<lparr>calls := calls ps @ [Unsubscribe (Some t), PUnsubscribe (Some t)],
                       subsRefsMap := (subsRefsMap ps)(t := None),
                       subscriptionMap := (subscriptionMap ps)(subId := None)\<rparr>"
  have u: "unsubscribe ps subId = Inr ?ps'"
    using assms by (simp add: unsubscribe_own propertyKey_def)
  have none: "subsRefsMap ?ps' t = None" by simp
  have a: "\<forall>e\<in>set (events (onMessage rt ?ps' pat channel message)). e = Decode message"
    if "dispatch_key pat channel = t" for rt pat channel message
    using that none by (intro onMessage_no_array) simp
  have b: "onMessage rt ?ps' pat channel message = \<lparr>after = ?ps', events = [], thrown = None\<rparr>"
    if "dispatch_key pat channel = t" and "Object_prototype t = Undefined"
    for rt pat channel message
    using that by (intro onMessage_dropped) (simp add: refsAt_def)
  from u a b show ?thesis by simp
qed

theorem unsubscribe_last_reference_witness:
  "subscriptionMap one_on_x 0 = Some (''x'', quiet 1)
   \<and> subsRefsMap one_on_x ''x'' = Some [0]
   \<and> unsubscribe one_on_x 0 =
        Inr (fresh\<lparr>currentSubscriptionId := 1,
                  calls := [Subscribe ''x'', Unsubscribe (Some ''x''), PUnsubscribe (Some ''x'')]\<rparr>)
   \<and> onMessage literal_json
        (fresh\<lparr>currentSubscriptionId := 1,
               calls := [Subscribe ''x'', Unsubscribe (Some ''x''), PUnsubscribe (Some ''x'')]\<rparr>)
        None ''x'' ''true'' =
        \<lparr>after = fresh\<lparr>currentSubscriptionId := 1,
               calls := [Subscribe ''x'', Unsubscribe (Some ''x''), PUnsubscribe (Some ''x'')]\<rparr>,
         events = [], thrown = None\<rparr>"
proof -
  have h1: "subscriptionMap one_on_x 0 = Some (''x'', quiet 1)"
    by (simp add: one_on_x_eq fresh_def)
  have h2: "subsRefsMap one_on_x ''x'' = Some [0]"
    by (simp add: one_on_x_eq fresh_def)
  have k: "dispatch_key None ''x'' = ''x''"
    by (simp add: dispatch_key_def)
  from unsubscribe_last_reference [OF h1 h2] h1 h2 k
  show ?thesis by (simp add: one_on_x_eq fresh_def)
qed

subsection \<open>Delivery in subscription order\<close>




subsection \<open>Messages nobody is subscribed to\<close>

text \<open>  Claim C8: \<^verbatim>\<open>onMessage\<close> takes the pattern, when present, or else the channel as dispatch
  key, and when no array exists for that key the message is dropped silently: nothing is
  decoded, no listener is invoked, nothing is thrown.

  \<^verbatim>\<open>subsRefsMap\<close> is a plain object, so for a key named like a function it inherits the
  test of line 161 finds the function and does not return. On a new instance, with no
  subscription at all, a message on the channel \<^verbatim>\<open>constructor\<close> is decoded and
  \<^verbatim>\<open>onMessage\<close> throws a \<^verbatim>\<open>TypeError\<close>.\<close>

theorem inherited_key_not_dropped:
  "new_RedisPubSub default_options = Inr fresh
   \<and> subsRefsMap fresh ''constructor'' = None
   \<and> subscriptionMap fresh = Map.empty
   \<and> onMessage literal_json fresh None ''constructor'' ''true'' =
        \<lparr>after = fresh\<lparr>decoded := 1\<rparr>, events = [Decode ''true''], thrown = Some TypeError\<rparr>"
  by (simp add: new_RedisPubSub_def default_options_def eval_defs Object_prototype_def)

subsection \<open>The correspondence between the two tables\<close>

text \<open>One direction of the correspondence holds after every completed call: on a new
  instance, and after each subscribe (confirmed or refused), each unsubscribe that
  returns and each delivery, every id of every array has a record that names the
  array's channel. (An unsubscribe that throws changes nothing.)\<close>

lemma consistent_new:
  assumes "new_RedisPubSub opts = Inr ps"
  shows "consistent ps"
  using assms
  by (auto simp: new_RedisPubSub_def consistent_def refs_have_records_def ids_below_counter_def
      refs_distinct_def own_keys_plain_def split: if_splits)

lemma consistent_record_written:
  assumes c: "consistent ps"
  shows "consistent (ps\<lparr>currentSubscriptionId := currentSubscriptionId ps + 1,
                        subscriptionMap := (subscriptionMap ps)(currentSubscriptionId ps \<mapsto> (t, l))\<rparr>)"
proof -
  from c have rr: "refs_have_records ps" and ib: "ids_below_counter ps" and rd: "refs_distinct ps"
    and ok: "own_keys_plain ps"
    by (simp_all add: consistent_def)
  have fresh_n: "subscriptionMap ps (currentSubscriptionId ps) = None"
    using ib unfolding ids_below_counter_def by (metis less_irrefl)
  have not_in: "\<And>u refs. subsRefsMap ps u = Some refs \<Longrightarrow> currentSubscriptionId ps \<notin> set refs"
    using rr fresh_n unfolding refs_have_records_def by fastforce
  show ?thesis
    using rr ib rd ok not_in
    unfolding consistent_def refs_have_records_def ids_below_counter_def refs_distinct_def
      own_keys_plain_def
    by (auto simp: less_Suc_eq)
qed

lemma consistent_calls [simp]: "consistent (ps\<lparr>calls := cs\<rparr>) = consistent ps"
  by (simp add: consistent_def refs_have_records_def ids_below_counter_def refs_distinct_def
      own_keys_plain_def)

lemma consistent_decoded [simp]: "consistent (ps\<lparr>decoded := n\<rparr>) = consistent ps"
  by (simp add: consistent_def refs_have_records_def ids_below_counter_def refs_distinct_def
      own_keys_plain_def)

lemma consistent_appended:
  assumes c: "consistent ps" and rec: "subscriptionMap ps sid = Some (t, l)"
    and at: "refsAt ps t = ArrayOf refs \<and> refs \<noteq> [] \<or> refsAt ps t = Undefined \<and> refs = []"
    and new: "\<forall>u r. subsRefsMap ps u = Some r \<longrightarrow> sid \<notin> set r"
  shows "consistent (ps\<lparr>subsRefsMap := (subsRefsMap ps)(t \<mapsto> refs @ [sid])\<rparr>)"
proof -
  from c have rr: "refs_have_records ps" and ib: "ids_below_counter ps" and rd: "refs_distinct ps"
    and ok: "own_keys_plain ps"
    by (simp_all add: consistent_def)
  from at have plain: "Object_prototype t = Undefined"
    using ok unfolding own_keys_plain_def refsAt_def by (auto split: option.splits)
  from at have own: "subsRefsMap ps t = Some refs \<or> (subsRefsMap ps t = None \<and> refs = [])"
    unfolding refsAt_def by (auto split: option.splits)
  show ?thesis
    using rr ib rd ok plain own rec new
    unfolding consistent_def refs_have_records_def ids_below_counter_def refs_distinct_def
      own_keys_plain_def
    by (auto split: if_splits)
qed

lemma consistent_subscribe_sync:
  assumes c: "consistent ps"
  shows "consistent (fst (subscribe_sync ps trigger l opts))"
proof -
  define t where "t = triggerTransform ps trigger opts"
  define n where "n = currentSubscriptionId ps"
  define ps1 where "ps1 = ps\<lparr>currentSubscriptionId := n + 1,
                             subscriptionMap := (subscriptionMap ps)(n \<mapsto> (t, l))\<rparr>"
  have c1: "consistent ps1"
    unfolding ps1_def n_def by (rule consistent_record_written [OF c])
  from c have ib: "ids_below_counter ps" and rr: "refs_have_records ps"
    by (simp_all add: consistent_def)
  have fresh_n: "subscriptionMap ps n = None"
    using ib unfolding ids_below_counter_def n_def by (metis less_irrefl)
  have new: "\<forall>u r. subsRefsMap ps1 u = Some r \<longrightarrow> n \<notin> set r"
    using rr fresh_n unfolding refs_have_records_def ps1_def by fastforce
  have rec: "subscriptionMap ps1 n = Some (t, l)" by (simp add: ps1_def)
  have E: "fst (subscribe_sync ps trigger l opts) =
     (case refsAt ps1 t of
        ArrayOf refs \<Rightarrow>
          if refs \<noteq> [] then ps1\<lparr>subsRefsMap := (subsRefsMap ps1)(t \<mapsto> refs @ [n])\<rparr>
          else ps1\<lparr>calls := calls ps1 @ [if pattern opts then PSubscribe t else Subscribe t]\<rparr>
      | FunctionOfLength k \<Rightarrow>
          if k > 0 then ps1
          else ps1\<lparr>calls := calls ps1 @ [if pattern opts then PSubscribe t else Subscribe t]\<rparr>
      | _ \<Rightarrow> ps1\<lparr>calls := calls ps1 @ [if pattern opts then PSubscribe t else Subscribe t]\<rparr>)"
    unfolding subscribe_sync_def ps1_def t_def n_def Let_def
    by (simp split: property.splits)
  show ?thesis
  proof (cases "refsAt ps1 t")
    case Undefined
    with c1 show ?thesis by (simp add: E)
  next
    case (ArrayOf refs)
    show ?thesis
    proof (cases "refs = []")
      case True
      with ArrayOf c1 show ?thesis by (simp add: E)
    next
      case False
      with ArrayOf have at: "refsAt ps1 t = ArrayOf refs \<and> refs \<noteq> []
                              \<or> refsAt ps1 t = Undefined \<and> refs = []" by simp
      from consistent_appended [OF c1 rec at new] ArrayOf False show ?thesis
        by (simp add: E)
    qed
  next
    case (FunctionOfLength k)
    with c1 show ?thesis by (simp add: E)
  next
    case PrototypeObject
    with c1 show ?thesis by (simp add: E)
  qed
qed

lemma consistent_subscribe_callback:
  assumes c: "consistent ps" and rec: "subscriptionMap ps sid = Some (t, l)"
    and new: "\<forall>u r. subsRefsMap ps u = Some r \<longrightarrow> sid \<notin> set r"
  shows "consistent (fst (subscribe_callback ps sid t err))"
proof (cases err)
  case (Some e)
  with c show ?thesis by (simp add: subscribe_callback_def)
next
  case None
  from c have rd: "refs_distinct ps" by (simp add: consistent_def)
  show ?thesis
  proof (cases "refsAt ps t")
    case Undefined
    then have at: "refsAt ps t = ArrayOf [] \<and> [] \<noteq> ([]::nat list)
                    \<or> refsAt ps t = Undefined \<and> [] = ([]::nat list)" by simp
    from consistent_appended [OF c rec at new] Undefined None show ?thesis
      by (simp add: subscribe_callback_def)
  next
    case (ArrayOf refs)
    then have "subsRefsMap ps t = Some refs"
      by (auto simp: refsAt_def split: option.splits)
    with rd have "refs \<noteq> []" unfolding refs_distinct_def by auto
    with ArrayOf have at: "refsAt ps t = ArrayOf refs \<and> refs \<noteq> []
                              \<or> refsAt ps t = Undefined \<and> refs = []" by simp
    from consistent_appended [OF c rec at new] ArrayOf None show ?thesis
      by (simp add: subscribe_callback_def)
  next
    case (FunctionOfLength k)
    with c None show ?thesis by (simp add: subscribe_callback_def)
  next
    case PrototypeObject
    with c None show ?thesis by (simp add: subscribe_callback_def)
  qed
qed

lemma consistent_subscribe:
  assumes c: "consistent ps"
  shows "consistent (fst (subscribe ps trigger l opts err))"
proof (cases "subscribe_sync ps trigger l opts")
  case (Pair ps1 p)
  from consistent_subscribe_sync [OF c, of trigger l opts] Pair have c1: "consistent ps1" by simp
  show ?thesis
  proof (cases p)
    case (Settled out)
    with Pair c1 show ?thesis by (simp add: subscribe_def)
  next
    case (AwaitingTransport sid t)
    from c have ib: "ids_below_counter ps" and rr: "refs_have_records ps"
      by (simp_all add: consistent_def)
    have fresh_n: "subscriptionMap ps (currentSubscriptionId ps) = None"
      using ib unfolding ids_below_counter_def by (metis less_irrefl)
    have not_in: "\<And>u r. subsRefsMap ps u = Some r \<Longrightarrow> currentSubscriptionId ps \<notin> set r"
      using rr fresh_n unfolding refs_have_records_def by fastforce
    from Pair AwaitingTransport have sid: "sid = currentSubscriptionId ps"
      and t: "t = triggerTransform ps trigger opts"
      and rec: "subscriptionMap ps1 sid = Some (t, l)"
      and same: "subsRefsMap ps1 = subsRefsMap ps"
      by (auto simp: subscribe_sync_def Let_def split: property.splits if_splits)
    from not_in sid same have new: "\<forall>u r. subsRefsMap ps1 u = Some r \<longrightarrow> sid \<notin> set r"
      by auto
    from consistent_subscribe_callback [OF c1 rec new, of err] Pair AwaitingTransport
    show ?thesis by (simp add: subscribe_def)
  qed
qed

lemma consistent_unsubscribe:
  assumes c: "consistent ps" and u: "unsubscribe ps subId = Inr ps'"
  shows "consistent ps'"
proof -
  from c have rr: "refs_have_records ps" and ib: "ids_below_counter ps" and rd: "refs_distinct ps"
    and ok: "own_keys_plain ps"
    by (simp_all add: consistent_def)
  define tn where "tn = map_option fst (subscriptionMap ps subId)"
  define key where "key = propertyKey tn"
  have tn: "(case subscriptionMap ps subId of Some (t, _) \<Rightarrow> Some t | None \<Rightarrow> None) = tn"
    by (simp add: tn_def split: option.splits prod.splits)
  have elsewhere: "\<And>u refs'. subsRefsMap ps u = Some refs' \<Longrightarrow> u \<noteq> key \<Longrightarrow> subId \<notin> set refs'"
  proof
    fix u refs' assume a: "subsRefsMap ps u = Some refs'" "u \<noteq> key" "subId \<in> set refs'"
    with rr obtain l where "subscriptionMap ps subId = Some (u, l)"
      unfolding refs_have_records_def by blast
    then have "key = u" by (simp add: key_def tn_def propertyKey_def)
    with a show False by simp
  qed
  show ?thesis
  proof (cases "subsRefsMap ps key")
    case None
    with u have "ps' = ps\<lparr>calls := calls ps @ [Unsubscribe tn, PUnsubscribe tn],
                    subsRefsMap := (subsRefsMap ps)(key := None),
                    subscriptionMap := (subscriptionMap ps)(subId := None)\<rparr>"
      unfolding unsubscribe_def tn Let_def key_def [symmetric]
      by (auto simp: refsAt_def split: property.splits if_splits)
    then show ?thesis
      using rr ib rd ok elsewhere None
      unfolding consistent_def refs_have_records_def ids_below_counter_def refs_distinct_def
        own_keys_plain_def
      by (auto split: if_splits)
  next
    case (Some refs)
    from Some rd have di: "distinct refs" and ne: "refs \<noteq> []"
      unfolding refs_distinct_def by auto
    show ?thesis
    proof (cases "length refs = 1")
      case True
      have "ps' = ps\<lparr>calls := calls ps @ [Unsubscribe tn, PUnsubscribe tn],
                    subsRefsMap := (subsRefsMap ps)(key := None),
                    subscriptionMap := (subscriptionMap ps)(subId := None)\<rparr>"
        using u Some True unsubscribe_own [of ps subId refs]
        by (simp add: key_def tn_def)
      then show ?thesis
        using rr ib rd ok elsewhere
        unfolding consistent_def refs_have_records_def ids_below_counter_def refs_distinct_def
          own_keys_plain_def
        by (auto split: if_splits)
    next
      case False
      have ps': "ps' = ps\<lparr>subsRefsMap := (subsRefsMap ps)(key \<mapsto> remove1 subId refs),
                    subscriptionMap := (subscriptionMap ps)(subId := None)\<rparr>"
        using u Some False unsubscribe_own [of ps subId refs]
        by (simp add: key_def tn_def)
      from ne have "length refs \<noteq> 0" by simp
      with False have len: "length refs \<ge> 2" by arith
      have "length (remove1 subId refs) \<ge> length refs - 1"
        by (simp add: length_remove1)
      with len have ne': "remove1 subId refs \<noteq> []" by auto
      have gone: "subId \<notin> set (remove1 subId refs)"
        using di by simp
      show ?thesis
        using rr ib rd ok elsewhere Some ne' gone di
        unfolding consistent_def refs_have_records_def ids_below_counter_def refs_distinct_def
          own_keys_plain_def ps'
        by (auto split: if_splits)
    qed
  qed
qed

lemma consistent_publish:
  assumes "consistent ps"
  shows "consistent (fst (publish rt ps trigger payload err))"
  using assms by (auto simp: publish_def split: sum.splits)

lemma consistent_reenter: "consistent ps \<Longrightarrow> consistent (reenter ps cs)"
proof (induction ps cs rule: reenter.induct)
  case (1 ps)
  then show ?case by simp
next
  case (2 ps subId cs)
  then show ?case by (auto simp: consistent_unsubscribe split: sum.splits)
next
  case (3 ps trigger l opts cs)
  then show ?case by (simp add: consistent_subscribe_sync)
qed

lemma consistent_fanout: "consistent ps \<Longrightarrow> consistent (fst (fanout ps subs v))"
proof (induction subs arbitrary: ps)
  case Nil
  then show ?case by simp
next
  case (Cons i subs)
  show ?case
  proof (cases "subscriptionMap ps i")
    case None
    with Cons.prems show ?thesis by simp
  next
    case (Some r)
    obtain t l where r: "r = (t, l)" by (cases r)
    from Cons.prems have c1: "consistent (reenter ps (lcalls l v))" by (rule consistent_reenter)
    from Cons.IH [OF c1] c1 Some r show ?thesis
      by (auto simp: Let_def split: prod.splits)
  qed
qed

lemma consistent_onMessage:
  assumes "consistent ps"
  shows "consistent (after (onMessage rt ps pat channel message))"
proof -
  from assms have c1: "consistent (ps\<lparr>decoded := decoded ps + 1\<rparr>)" by simp
  have "consistent (fst (fanout (ps\<lparr>decoded := decoded ps + 1\<rparr>) subs v))" for subs v
    by (rule consistent_fanout [OF c1])
  then have f: "fanout (ps\<lparr>decoded := decoded ps + 1\<rparr>) subs v = (x, y) \<Longrightarrow> consistent x"
    for subs v x y
    by (metis fst_conv)
  from f assms show ?thesis
    by (auto simp: onMessage_def Let_def split: property.splits prod.splits)
qed

text \<open>Hence every state an instance goes through is consistent: each id of an array is
  bound to a listener, and no array is stored under an inherited name.\<close>

lemma reachable_consistent: "reachable ps \<Longrightarrow> consistent ps"
proof (induction rule: reachable.induct)
  case (constructed opts ps)
  then show ?case by (rule consistent_new)
next
  case (subscribed ps trigger l opts err)
  then show ?case by (simp add: consistent_subscribe)
next
  case (unsubscribed ps subId ps')
  then show ?case by (blast intro: consistent_unsubscribe)
next
  case (published ps rt trigger payload err)
  then show ?case by (simp add: consistent_publish)
next
  case (delivered ps rt pat channel message)
  then show ?case by (simp add: consistent_onMessage)
qed

lemma consistent_listeners:
  assumes "consistent ps" and "subsRefsMap ps t = Some subs"
  shows "\<exists>ls. map (listenerOf ps) subs = map Some ls"
proof -
  from assms have "\<forall>i\<in>set subs. \<exists>l. listenerOf ps i = Some l"
    unfolding consistent_def refs_have_records_def listenerOf_def by fastforce
  then show ?thesis
  proof (induction subs)
    case Nil
    show ?case by simp
  next
    case (Cons i subs)
    then obtain l ls where "listenerOf ps i = Some l" and "map (listenerOf ps) subs = map Some ls"
      by auto
    then have "map (listenerOf ps) (i # subs) = map Some (l # ls)" by simp
    then show ?case by blast
  qed
qed

lemma reachable_listeners:
  assumes "reachable ps" and "subsRefsMap ps t = Some subs"
  shows "\<exists>ls. map (listenerOf ps) subs = map Some ls"
  using assms by (blast intro: consistent_listeners reachable_consistent)

lemma reachable_own_keys:
  assumes "reachable ps" and "subsRefsMap ps t = Some subs"
  shows "Object_prototype t = Undefined"
  using assms reachable_consistent [of ps] unfolding consistent_def own_keys_plain_def by blast

text \<open>  Claim C9: after every completed subscribe or unsubscribe, failed ones included, the
  ids in the arrays and the records are in bijection.

  The other direction fails after a subscribe the transport refuses: the record of the
  refused call (id 1, channel \<^verbatim>\<open>b\<close>) stays, and no array holds its id.\<close>

theorem failed_subscribe_breaks_bijection:
  "refused_b = fresh\<lparr>currentSubscriptionId := 2,
       subscriptionMap := [0 \<mapsto> (''a'', quiet 1), 1 \<mapsto> (''b'', quiet 2)],
       calls := [Subscribe ''a'', Subscribe ''b''],
       subsRefsMap := [''a'' \<mapsto> [0]]\<rparr>
   \<and> subscriptionMap refused_b 1 = Some (''b'', quiet 2)
   \<and> subsRefsMap refused_b ''b'' = None
   \<and> (\<forall>t. 1 \<notin> set (case subsRefsMap refused_b t of Some refs \<Rightarrow> refs | None \<Rightarrow> []))"
  by (simp add: refused_b_def subscribe_first_confirmed subscribe_first_failed fresh_def
      literal_def numeral_2_eq_2)

lemma refused_b_not_bijective: "\<not> records_have_refs refused_b"
proof
  assume "records_have_refs refused_b"
  moreover have "subscriptionMap refused_b 1 = Some (''b'', quiet 2)"
    by (simp add: refused_b_def subscribe_first_confirmed subscribe_first_failed fresh_def
      literal_def)
  ultimately obtain refs where "subsRefsMap refused_b ''b'' = Some refs"
    unfolding records_have_refs_def by blast
  then show False
    by (simp add: refused_b_def subscribe_first_confirmed subscribe_first_failed fresh_def
      literal_def)
qed

subsection \<open>One decoded value for all listeners\<close>




subsection \<open>Calls that overlap\<close>

text \<open>The delivery theorems above ask that every id of the array has a record. That
  holds in every consistent state, hence after any sequence of completed calls, but not
  when calls overlap: an \<^verbatim>\<open>unsubscribe\<close> that runs between a subscribe call and its
  confirmation can leave an id in an array without a record, and the next message
  for the channel makes \<^verbatim>\<open>onMessage\<close> throw a \<^verbatim>\<open>TypeError\<close> before any listener is
  invoked.\<close>

lemma pending_subscribe_race:
  "onMessage literal_json racing None ''c'' ''true'' =
     \<lparr>after = racing\<lparr>decoded := 1\<rparr>, events = [Decode ''true''], thrown = Some TypeError\<rparr>"
  by (simp add: racing_eq eval_defs)

lemma racing_not_consistent: "\<not> consistent racing"
proof
  assume "consistent racing"
  then have "refs_have_records racing" by (simp add: consistent_def)
  moreover have "subsRefsMap racing ''c'' = Some [0]" by (simp add: racing_eq fresh_def)
  ultimately obtain l where "subscriptionMap racing 0 = Some (''c'', l)"
    unfolding refs_have_records_def by fastforce
  then show False by (simp add: racing_eq fresh_def)
qed

end
